theory Spec2Isabelle
  imports
    Complex_Main
    "HOL-Library.Sublist"
    "HOL-Library.Multiset"
    "HOL-Library.AList"
    "HOL-Library.Char_ord"
    "HOL-Library.List_Lexorder"
begin

section \<open>hcache: the page-cache census pipeline of main.go\<close>

text \<open>
  The development embeds \<^verbatim>\<open>src/main.go\<close>: \<^verbatim>\<open>uniqueSlice\<close>, \<^verbatim>\<open>getStatsFromFiles\<close>,
  \<^verbatim>\<open>getPidLds\<close>, \<^verbatim>\<open>top\<close> and \<^verbatim>\<open>main\<close>. The operating system (process table, /proc,
  symlink resolution, the mincore query, the mount-namespace switch) is a parameter of
  the model; log output, the current mount namespace and the order in which the Go
  runtime walks a map are threaded through as explicit state.
\<close>

subsection \<open>Data\<close>

text \<open>A Go \<^verbatim>\<open>error\<close> is represented by the text its \<^verbatim>\<open>Error()\<close> method returns.\<close>

type_synonym error = string

text \<open>
  \<^verbatim>\<open>pcstat.PcStatus\<close> (package github.com/tobert/pcstat). The two time stamps of the
  struct are left out: nothing in main.go reads or writes them. \<^verbatim>\<open>Percent\<close> is a
  float64; the model keeps the real number it denotes.
\<close>

record PcStatus =
  Name :: string
  Size :: int
  Pages :: int
  Cached :: int
  Uncached :: int
  Percent :: real
  PPStat :: "bool list"

text \<open>The zero value of the struct, which fills the unused capacity of a fresh slice.\<close>

definition zero_PcStatus :: PcStatus where
  "zero_PcStatus =
     \<lparr>Name = [], Size = 0, Pages = 0, Cached = 0, Uncached = 0, Percent = 0, PPStat = []\<rparr>"

text \<open>\<^verbatim>\<open>utils.Process\<close>: what \<^verbatim>\<open>top\<close> reads of it are \<^verbatim>\<open>Pid()\<close> and \<^verbatim>\<open>RSS()\<close>.\<close>

record Process =
  Pid :: int
  RSS :: int

text \<open>An \<^verbatim>\<open>os.DirEntry\<close>: \<^verbatim>\<open>Name()\<close> and \<^verbatim>\<open>IsDir()\<close>.\<close>

datatype DirEntry = DirEntry (entry_Name: string) (entry_IsDir: bool)

text \<open>
  One constructor per logging call of main.go, carrying the arguments of its format
  string:
  \<^item> \<open>Skipping_file fname err\<close>: \<^verbatim>\<open>log.Printf("skipping %q: %v", fname, err)\<close>
  \<^item> \<open>Fatal_processes err\<close>: \<^verbatim>\<open>log.Fatalf("err: %s", err)\<close>
  \<^item> \<open>Fatal_no_process\<close>: \<^verbatim>\<open>log.Fatal("Cannot find any process.")\<close>
  \<^item> \<open>Fatal_open_dir dirname err\<close>: \<^verbatim>\<open>log.Fatalf("could not open dir '%s': %v", dirname, err)\<close>
  \<^item> \<open>Skipping_dir dirname err\<close>: \<^verbatim>\<open>log.Printf("skipping %s: %v", dirname, err)\<close>
  \<^item> \<open>Could_not_open symlink err\<close>: \<^verbatim>\<open>log.Printf("could not open '%s' for read: %v", symlink, err)\<close>
  \<^item> \<open>Could_not_inspect symlink err\<close>: \<^verbatim>\<open>log.Printf("could not inspect symlink '%s': %v", symlink, err)\<close>
\<close>

datatype log_entry =
    Skipping_file string error
  | Fatal_processes error
  | Fatal_no_process
  | Fatal_open_dir string error
  | Skipping_dir string error
  | Could_not_open string error
  | Could_not_inspect string error

text \<open>
  The ways a run ends early: \<^verbatim>\<open>log.Fatal\<close>/\<^verbatim>\<open>log.Fatalf\<close> (the message is logged, then
  \<^verbatim>\<open>os.Exit(1)\<close>), the run-time panic of a slice expression out of range, and
  \<^verbatim>\<open>flag.Usage(); os.Exit(1)\<close>.
\<close>

datatype abort = LogFatal | SliceBoundsPanic | UsageExit

text \<open>A mount namespace is identified by a number; what it shows is up to the environment.\<close>

type_synonym mntns = nat

text \<open>
  The environment of a run. Every file-system operation sees the mount namespace the
  thread is in. \<open>Lstat\<close> returns whether \<^verbatim>\<open>fi.Mode()&os.ModeSymlink != 0\<close>.
  \<open>Processes\<close> is \<^verbatim>\<open>utils.Processes()\<close> and \<open>SwitchMountNs\<close> is \<^verbatim>\<open>pcstat.SwitchMountNs\<close>,
  which maps the pid and the current namespace to the namespace the thread is in
  afterwards.
\<close>

record os_env =
  Getpid :: int
  Processes :: "error + Process list"
  SwitchMountNs :: "int \<Rightarrow> mntns \<Rightarrow> mntns"
  ReadDir :: "mntns \<Rightarrow> string \<Rightarrow> error + DirEntry list"
  Lstat :: "mntns \<Rightarrow> string \<Rightarrow> error + bool"
  EvalSymlinks :: "mntns \<Rightarrow> string \<Rightarrow> error + string"
  GetPcStatus :: "mntns \<Rightarrow> string \<Rightarrow> error + PcStatus"

text \<open>
  The state a run threads through: the log written so far, the mount namespace of the
  thread, and one seed for every \<^verbatim>\<open>range\<close> over a map still to come (Go leaves the
  iteration order of a map unspecified; the seed stands for the runtime's choice).
\<close>

record run_state =
  logs :: "log_entry list"
  mntns :: mntns
  map_seeds :: "nat list list"

text \<open>The flags and arguments main.go's control flow reads. The output-format flags only
  select the renderer inside \<^verbatim>\<open>formatStats\<close>.\<close>

record flags =
  pidFlag :: int
  topFlag :: int
  bnameFlag :: bool
  args :: "string list"

subsection \<open>Library functions used by main.go\<close>

definition HasPrefix :: "string \<Rightarrow> string \<Rightarrow> bool" where
  "HasPrefix s pre = prefix pre s"

fun Contains :: "string \<Rightarrow> string \<Rightarrow> bool" where
  "Contains [] substr = (substr = [])"
| "Contains (c # cs) substr = (prefix substr (c # cs) \<or> Contains cs substr)"

text \<open>\<^verbatim>\<open>%d\<close> of \<^verbatim>\<open>fmt.Sprintf\<close>: the decimal digits, with a minus sign for a negative number.\<close>

fun digits :: "nat \<Rightarrow> string" where
  "digits n =
     (if n < 10 then [''0123456789'' ! n]
      else digits (n div 10) @ [''0123456789'' ! (n mod 10)])"

declare digits.simps [simp del]

definition itoa :: "int \<Rightarrow> string" where
  "itoa i = (if i < 0 then CHR ''-'' # digits (nat (- i)) else digits (nat i))"

text \<open>\<^verbatim>\<open>fmt.Sprintf("/proc/%d/fd", pid)\<close> and \<^verbatim>\<open>fmt.Sprintf("/proc/%d/fd/%s", pid, name)\<close>.\<close>

definition fd_dirname :: "int \<Rightarrow> string" where
  "fd_dirname pid = ''/proc/'' @ itoa pid @ ''/fd''"

definition fd_symlink :: "int \<Rightarrow> string \<Rightarrow> string" where
  "fd_symlink pid name = ''/proc/'' @ itoa pid @ ''/fd/'' @ name"

text \<open>
  \<^verbatim>\<open>path.Base\<close>: the empty path gives ".", trailing slashes are stripped, the text after
  the last remaining slash is kept, and a path of slashes only gives "/".
\<close>

definition Base :: "string \<Rightarrow> string" where
  "Base p =
     (if p = [] then ''.''
      else (let q = rev (dropWhile (\<lambda>c. c = CHR ''/'') (rev p));
                r = rev (takeWhile (\<lambda>c. c \<noteq> CHR ''/'') (rev q))
            in if r = [] then ''/'' else r))"

text \<open>
  \<^verbatim>\<open>sort.Sort\<close> on a \<^verbatim>\<open>PcStatusList\<close>. A short slice (at most six elements in every
  version of the standard library, at most twelve from Go 1.19 on) is sorted by the
  library's \<^verbatim>\<open>insertionSort\<close> alone: element \<open>i\<close> is swapped towards the front while
  \<^verbatim>\<open>Less(j, j-1)\<close> holds. \<open>sift\<close> is that inner loop on the reversed sorted front.
  Longer slices go through the library's quicksort, which also returns a permutation
  of its input; of \<open>sort_Sort\<close> on slices of arbitrary length the theorems below use
  no more than that.
\<close>

fun sift :: "('a \<Rightarrow> 'a \<Rightarrow> bool) \<Rightarrow> 'a \<Rightarrow> 'a list \<Rightarrow> 'a list" where
  "sift lessf x [] = [x]"
| "sift lessf x (y # ys) = (if lessf x y then y # sift lessf x ys else x # y # ys)"

definition sort_Sort :: "('a \<Rightarrow> 'a \<Rightarrow> bool) \<Rightarrow> 'a list \<Rightarrow> 'a list" where
  "sort_Sort lessf xs = rev (fold (sift lessf) xs [])"

text \<open>
  Modelled from the spec: the methods of \<^verbatim>\<open>PcStatusList\<close> (\<^verbatim>\<open>Len\<close>, \<^verbatim>\<open>Less\<close>, \<^verbatim>\<open>Swap\<close>) are
  declared in a file of the repository that is not under src/. Section 4.5 of the
  specification gives the order: descending \<^verbatim>\<open>percentCached\<close>, ties broken by
  descending \<^verbatim>\<open>residentPages\<close>, then by name. \<open>top\<close> and \<open>main\<close> below take the
  comparison as a parameter; this definition instantiates it at concrete inputs.
\<close>

definition PcStatusList_Less :: "PcStatus \<Rightarrow> PcStatus \<Rightarrow> bool" where
  "PcStatusList_Less a b =
     (Percent b < Percent a
      \<or> (Percent a = Percent b
          \<and> (Cached b < Cached a \<or> (Cached a = Cached b \<and> Name a < Name b))))"

text \<open>
  A \<^verbatim>\<open>range\<close> over a map with the given keys. The seed picks, one position at a time,
  which of the remaining keys comes next; every seed yields each key once.
\<close>

primrec pick_order :: "nat list \<Rightarrow> 'a list \<Rightarrow> 'a list" where
  "pick_order [] xs = xs"
| "pick_order (c # cs) xs =
     (if xs = [] then []
      else (let i = c mod length xs
            in xs ! i # pick_order cs (take i xs @ drop (Suc i) xs)))"

definition map_range :: "(string \<times> bool) list \<Rightarrow> run_state \<Rightarrow> string list \<times> run_state" where
  "map_range m s =
     (case map_seeds s of
        [] \<Rightarrow> (map fst m, s)
      | seed # rest \<Rightarrow> (pick_order seed (map fst m), s\<lparr>map_seeds := rest\<rparr>))"

definition log_Printf :: "log_entry \<Rightarrow> run_state \<Rightarrow> run_state" where
  "log_Printf e s = s\<lparr>logs := logs s @ [e]\<rparr>"

text \<open>
  A slice expression \<^verbatim>\<open>s[:high]\<close> on a slice with the given elements and capacity. Go
  checks \<open>high\<close> against the capacity, not the length: within the capacity the result
  reaches into the backing array, which \<^verbatim>\<open>make\<close> filled with zero values; outside
  \<open>0..cap\<close> the expression panics.
\<close>

definition slice_to :: "PcStatus list \<times> nat \<Rightarrow> int \<Rightarrow> abort + PcStatus list" where
  "slice_to sl high =
     (case sl of (elems, capacity) \<Rightarrow>
        if high < 0 \<or> int capacity < high then Inl SliceBoundsPanic
        else Inr (take (nat high) (elems @ replicate (capacity - length elems) zero_PcStatus)))"

subsection \<open>uniqueSlice\<close>

text \<open>
  The loop body for index \<open>i\<close>: \<open>found\<close> is the map, \<open>totalN\<close> the counter \<^verbatim>\<open>total\<close> and
  \<open>slice\<close> the backing array, which the loop overwrites while it reads it.
\<close>

definition uniqueSlice_step ::
  "nat \<Rightarrow> (string \<rightharpoonup> bool) \<times> nat \<times> string list \<Rightarrow> (string \<rightharpoonup> bool) \<times> nat \<times> string list" where
  "uniqueSlice_step i st =
     (case st of (found, totalN, slice) \<Rightarrow>
        (let val = slice ! i in
         if found val = None
         then (found(val \<mapsto> True), Suc totalN, slice[totalN := slice ! i])
         else (found, totalN, slice)))"

definition uniqueSlice :: "string list \<Rightarrow> string list" where
  "uniqueSlice slice =
     (case fold uniqueSlice_step [0..<length slice] (Map.empty, 0, slice) of
        (found, totalN, slice') \<Rightarrow> take totalN slice')"

text \<open>The elements of \<open>xs\<close> below index \<open>n\<close> that no smaller index holds, in order.\<close>

definition first_seen :: "string list \<Rightarrow> nat \<Rightarrow> string list" where
  "first_seen xs n = map (\<lambda>i. xs ! i) (filter (\<lambda>i. xs ! i \<notin> set (take i xs)) [0..<n])"

subsection \<open>getStatsFromFiles\<close>

definition getStatsFromFiles_step ::
  "os_env \<Rightarrow> bool \<Rightarrow> string \<Rightarrow> PcStatus list \<times> run_state \<Rightarrow> PcStatus list \<times> run_state" where
  "getStatsFromFiles_step env bname fname st =
     (case st of (stats, s) \<Rightarrow>
        (case GetPcStatus env (mntns s) fname of
           Inl err \<Rightarrow> (stats, log_Printf (Skipping_file fname err) s)
         | Inr status \<Rightarrow>
             (stats @ [if bname then status\<lparr>Name := Base fname\<rparr> else status], s)))"

text \<open>The result is the slice \<open>stats\<close> together with its capacity, \<^verbatim>\<open>len(files)\<close>.\<close>

definition getStatsFromFiles ::
  "os_env \<Rightarrow> bool \<Rightarrow> string list \<Rightarrow> run_state \<Rightarrow> (PcStatus list \<times> nat) \<times> run_state" where
  "getStatsFromFiles env bname files s =
     (case fold (getStatsFromFiles_step env bname) files ([], s) of
        (stats, s') \<Rightarrow> ((stats, length files), s'))"

subsection \<open>getPidLds\<close>

text \<open>The body of the loop over the directory entries; \<open>maps\<close> is the map of targets,
  kept as its keys in insertion order.\<close>

definition getPidLds_entry ::
  "os_env \<Rightarrow> int \<Rightarrow> DirEntry \<Rightarrow> (string \<times> bool) list \<times> run_state
     \<Rightarrow> (string \<times> bool) list \<times> run_state" where
  "getPidLds_entry env pid entry st =
     (case st of (maps, s) \<Rightarrow>
        if \<not> entry_IsDir entry then
          (let symlink = fd_symlink pid (entry_Name entry) in
           case Lstat env (mntns s) symlink of
             Inl err \<Rightarrow> (maps, log_Printf (Could_not_open symlink err) s)
           | Inr is_symlink \<Rightarrow>
               if is_symlink then
                 (case EvalSymlinks env (mntns s) symlink of
                    Inl err \<Rightarrow>
                      if \<not> Contains err ''no such file or directory''
                      then (maps, log_Printf (Could_not_inspect symlink err) s)
                      else (maps, s)
                  | Inr target \<Rightarrow>
                      if HasPrefix target ''/'' \<and> \<not> HasPrefix target ''/dev''
                         \<and> \<not> HasPrefix target ''/proc''
                      then (AList.update target True maps, s)
                      else (maps, s))
               else (maps, s))
        else (maps, s))"

definition getPidLds :: "os_env \<Rightarrow> int \<Rightarrow> run_state \<Rightarrow> (abort + string list) \<times> run_state" where
  "getPidLds env pid s =
     (if pid = Getpid env then (Inr [], s)
      else (let dirname = fd_dirname pid in
            case ReadDir env (mntns s) dirname of
              Inl err \<Rightarrow>
                if \<not> Contains err ''no such file or directory''
                then (Inl LogFatal, log_Printf (Fatal_open_dir dirname err) s)
                else (Inr [], log_Printf (Skipping_dir dirname err) s)
            | Inr entries \<Rightarrow>
                (case fold (getPidLds_entry env pid) entries ([], s) of
                   (maps, s1) \<Rightarrow>
                     (case map_range maps s1 of (out, s2) \<Rightarrow> (Inr out, s2)))))"

subsection \<open>top and main\<close>

text \<open>The loop of \<open>top\<close> over the processes with a non-zero resident set.\<close>

fun top_scan ::
  "os_env \<Rightarrow> Process list \<Rightarrow> string list \<Rightarrow> run_state \<Rightarrow> (abort + string list) \<times> run_state" where
  "top_scan env [] files s = (Inr files, s)"
| "top_scan env (process # rest) files s =
     (case getPidLds env (Pid process)
             (s\<lparr>mntns := SwitchMountNs env (Pid process) (mntns s)\<rparr>) of
        (Inl a, s') \<Rightarrow> (Inl a, s')
      | (Inr maps, s') \<Rightarrow> top_scan env rest (files @ maps) s')"

text \<open>
  The result of a run is either the way it ended early or the list handed to
  \<^verbatim>\<open>formatStats\<close>, whose renderers print the list as it is.
\<close>

definition top ::
  "(PcStatus \<Rightarrow> PcStatus \<Rightarrow> bool) \<Rightarrow> os_env \<Rightarrow> bool \<Rightarrow> int \<Rightarrow> run_state
     \<Rightarrow> (abort + PcStatus list) \<times> run_state" where
  "top lessf env bname n s =
     (case Processes env of
        Inl err \<Rightarrow> (Inl LogFatal, log_Printf (Fatal_processes err) s)
      | Inr p \<Rightarrow>
          if length p \<le> 0 then (Inl LogFatal, log_Printf Fatal_no_process s)
          else (let results = filter (\<lambda>p1. RSS p1 \<noteq> 0) p in
                case top_scan env results [] s of
                  (Inl a, s1) \<Rightarrow> (Inl a, s1)
                | (Inr files, s1) \<Rightarrow>
                    (case getStatsFromFiles env bname (uniqueSlice files) s1 of
                       ((stats, capacity), s2) \<Rightarrow>
                         (slice_to (sort_Sort lessf stats, capacity) n, s2))))"

text \<open>Lines 155 to 160 of \<open>main\<close>: the arguments, followed by the open files of \<^verbatim>\<open>-pid\<close>.\<close>

definition main_files :: "os_env \<Rightarrow> flags \<Rightarrow> run_state \<Rightarrow> (abort + string list) \<times> run_state" where
  "main_files env fl s =
     (if pidFlag fl \<noteq> 0 then
        (case getPidLds env (pidFlag fl)
                (s\<lparr>mntns := SwitchMountNs env (pidFlag fl) (mntns s)\<rparr>) of
           (Inl a, s') \<Rightarrow> (Inl a, s')
         | (Inr maps, s') \<Rightarrow> (Inr (args fl @ maps), s'))
      else (Inr (args fl), s))"

definition main ::
  "(PcStatus \<Rightarrow> PcStatus \<Rightarrow> bool) \<Rightarrow> os_env \<Rightarrow> flags \<Rightarrow> run_state
     \<Rightarrow> (abort + PcStatus list) \<times> run_state" where
  "main lessf env fl s =
     (if topFlag fl \<noteq> 0 then top lessf env (bnameFlag fl) (topFlag fl) s
      else (case main_files env fl s of
              (Inl a, s1) \<Rightarrow> (Inl a, s1)
            | (Inr files, s1) \<Rightarrow>
                if length files = 0 then (Inl UsageExit, s1)
                else (case getStatsFromFiles env (bnameFlag fl) files s1 of
                        ((stats, capacity), s2) \<Rightarrow> (Inr (sort_Sort lessf stats), s2))))"

subsection \<open>What the census is to return\<close>

text \<open>
  The records of the paths whose residency query succeeds, in the order of the paths,
  and the log entries of the paths whose query fails, in the order of the paths. With
  the basename option the record is renamed after the query.
\<close>

definition census_records :: "os_env \<Rightarrow> bool \<Rightarrow> mntns \<Rightarrow> string list \<Rightarrow> PcStatus list" where
  "census_records env bname ns files =
     concat (map (\<lambda>fname. case GetPcStatus env ns fname of
                     Inl err \<Rightarrow> []
                   | Inr status \<Rightarrow> [if bname then status\<lparr>Name := Base fname\<rparr> else status]) files)"

definition census_failures :: "os_env \<Rightarrow> mntns \<Rightarrow> string list \<Rightarrow> log_entry list" where
  "census_failures env ns files =
     concat (map (\<lambda>fname. case GetPcStatus env ns fname of
                     Inl err \<Rightarrow> [Skipping_file fname err]
                   | Inr status \<Rightarrow> []) files)"

subsection \<open>A concrete host\<close>

text \<open>
  A host for the concrete runs below. The inspecting program has pid 1000. Process 7 has
  four open descriptors: 3 resolves to /a, 4 to /b, 5 to /dev/null and 6 to /gone. The
  residency query succeeds for /a (4 of 4 pages cached), /b (2 of 4), /x/c and /y/c
  (1 of 1 each) and fails for every other path.
\<close>

definition status_a :: PcStatus where
  "status_a = \<lparr>Name = ''/a'', Size = 16384, Pages = 4, Cached = 4, Uncached = 0,
                Percent = 100, PPStat = []\<rparr>"

definition status_b :: PcStatus where
  "status_b = \<lparr>Name = ''/b'', Size = 16384, Pages = 4, Cached = 2, Uncached = 2,
                Percent = 50, PPStat = []\<rparr>"

definition status_xc :: PcStatus where
  "status_xc = \<lparr>Name = ''/x/c'', Size = 4096, Pages = 1, Cached = 1, Uncached = 0,
                 Percent = 100, PPStat = []\<rparr>"

definition status_yc :: PcStatus where
  "status_yc = \<lparr>Name = ''/y/c'', Size = 4000, Pages = 1, Cached = 1, Uncached = 0,
                 Percent = 100, PPStat = []\<rparr>"

definition host :: os_env where
  "host =
     \<lparr>Getpid = 1000,
      Processes = Inr [\<lparr>Pid = 7, RSS = 100\<rparr>],
      SwitchMountNs = (\<lambda>pid ns. ns),
      ReadDir = (\<lambda>ns d.
        if d = ''/proc/7/fd''
        then Inr [DirEntry ''3'' False, DirEntry ''4'' False, DirEntry ''5'' False,
                  DirEntry ''6'' False]
        else Inl ''no such file or directory''),
      Lstat = (\<lambda>ns p. Inr True),
      EvalSymlinks = (\<lambda>ns p.
        if p = ''/proc/7/fd/3'' then Inr ''/a''
        else if p = ''/proc/7/fd/4'' then Inr ''/b''
        else if p = ''/proc/7/fd/5'' then Inr ''/dev/null''
        else if p = ''/proc/7/fd/6'' then Inr ''/gone''
        else Inl ''no such file or directory''),
      GetPcStatus = (\<lambda>ns p.
        if p = ''/a'' then Inr status_a
        else if p = ''/b'' then Inr status_b
        else if p = ''/x/c'' then Inr status_xc
        else if p = ''/y/c'' then Inr status_yc
        else Inl ''no such file or directory'')\<rparr>"

text \<open>The same host seen by a caller that may not read the descriptors of process 7.\<close>

definition host_denied :: os_env where
  "host_denied = host\<lparr>ReadDir := (\<lambda>ns d. Inl ''permission denied'')\<rparr>"

text \<open>The same host after process 7 has exited.\<close>

definition host_exited :: os_env where
  "host_exited = host\<lparr>ReadDir := (\<lambda>ns d. Inl ''no such file or directory'')\<rparr>"

text \<open>The same host where the descriptors of process 7 resolve to /x/c and /y/c.\<close>

definition host_c :: os_env where
  "host_c = host\<lparr>EvalSymlinks := (\<lambda>ns p.
        if p = ''/proc/7/fd/3'' then Inr ''/x/c''
        else if p = ''/proc/7/fd/4'' then Inr ''/y/c''
        else Inl ''no such file or directory'')\<rparr>"

definition start :: run_state where
  "start = \<lparr>logs = [], mntns = 0, map_seeds = []\<rparr>"

section \<open>Properties\<close>

subsection \<open>uniqueSlice keeps first occurrences\<close>

lemma first_seen_Suc:
  "first_seen xs (Suc n) = first_seen xs n @ (if xs ! n \<notin> set (take n xs) then [xs ! n] else [])"
  by (simp add: first_seen_def)

lemma uniqueSlice_loop_inv:
  "i \<le> length xs \<Longrightarrow>
   \<exists>found totalN arr. fold uniqueSlice_step [0..<i] (Map.empty, 0, xs) = (found, totalN, arr)
     \<and> dom found = set (take i xs) \<and> totalN \<le> i \<and> length arr = length xs
     \<and> take totalN arr = first_seen xs i \<and> drop i arr = drop i xs"
proof (induction i)
  case 0
  then show ?case by (simp add: first_seen_def)
next
  case (Suc i)
  then obtain found totalN arr where
    st: "fold uniqueSlice_step [0..<i] (Map.empty, 0, xs) = (found, totalN, arr)"
    and dm: "dom found = set (take i xs)" and tl: "totalN \<le> i" and ln: "length arr = length xs"
    and tk: "take totalN arr = first_seen xs i" and dr: "drop i arr = drop i xs"
    by auto
  from Suc.prems have il: "i < length xs" by simp
  have nth: "arr ! i = xs ! i"
    using dr il ln by (metis Cons_nth_drop_Suc nth_via_drop)
  have tkS: "take (Suc i) xs = take i xs @ [xs ! i]"
    using il by (simp add: take_Suc_conv_app_nth)
  have drS: "drop (Suc i) arr = drop (Suc i) xs"
    using dr by (metis drop_Suc tl_drop)
  show ?case
  proof (cases "found (xs ! i) = None")
    case True
    then have notin: "xs ! i \<notin> set (take i xs)" using dm by (auto simp: domIff)
    have step: "fold uniqueSlice_step [0..<Suc i] (Map.empty, 0, xs)
        = (found(xs ! i \<mapsto> True), Suc totalN, arr[totalN := xs ! i])"
      using st True nth by (simp add: uniqueSlice_step_def Let_def)
    have "take (Suc totalN) (arr[totalN := xs ! i]) = first_seen xs (Suc i)"
      using tk tl il ln notin by (simp add: first_seen_Suc take_Suc_conv_app_nth)
    moreover have "drop (Suc i) (arr[totalN := xs ! i]) = drop (Suc i) xs"
      using drS tl by simp
    ultimately show ?thesis
      using step dm tl ln tkS by auto
  next
    case False
    then have isin: "xs ! i \<in> set (take i xs)" using dm by (auto simp: domIff)
    have step: "fold uniqueSlice_step [0..<Suc i] (Map.empty, 0, xs) = (found, totalN, arr)"
      using st False nth by (simp add: uniqueSlice_step_def Let_def)
    show ?thesis
      using step dm tl ln tk drS isin tkS by (auto simp: first_seen_Suc)
  qed
qed

lemma uniqueSlice_first_seen: "uniqueSlice xs = first_seen xs (length xs)"
  using uniqueSlice_loop_inv [of "length xs" xs] by (auto simp: uniqueSlice_def)

lemma set_first_seen: "n \<le> length xs \<Longrightarrow> set (first_seen xs n) = set (take n xs)"
proof (induction n)
  case 0 then show ?case by (simp add: first_seen_def)
next
  case (Suc n)
  then show ?case by (auto simp: first_seen_Suc take_Suc_conv_app_nth)
qed

lemma distinct_first_seen: "n \<le> length xs \<Longrightarrow> distinct (first_seen xs n)"
proof (induction n)
  case 0 then show ?case by (simp add: first_seen_def)
next
  case (Suc n)
  then show ?case by (auto simp: first_seen_Suc set_first_seen)
qed

text \<open>
  Claim C5. For every sequence of paths, \<open>uniqueSlice\<close> returns exactly the elements
  that do not occur at a smaller index, in input order: every distinct path once, in
  the order of first occurrence. On [a, b, a, c, b] it returns [a, b, c].
\<close>

theorem uniqueSlice_first_occurrence_order:
  "uniqueSlice xs = map (\<lambda>i. xs ! i) (filter (\<lambda>i. xs ! i \<notin> set (take i xs)) [0..<length xs])
   \<and> distinct (uniqueSlice xs)
   \<and> set (uniqueSlice xs) = set xs
   \<and> uniqueSlice [''a'', ''b'', ''a'', ''c'', ''b''] = [''a'', ''b'', ''c'']"
proof -
  have 1: "uniqueSlice xs = first_seen xs (length xs)" by (rule uniqueSlice_first_seen)
  have 2: "distinct (uniqueSlice xs)" by (simp add: 1 distinct_first_seen)
  have 3: "set (uniqueSlice xs) = set xs" by (simp add: 1 set_first_seen)
  have 4: "uniqueSlice [''a'', ''b'', ''a'', ''c'', ''b''] = [''a'', ''b'', ''c'']"
    by (simp add: uniqueSlice_def uniqueSlice_step_def upt_rec Let_def)
  from 1 2 3 4 show ?thesis by (simp add: first_seen_def)
qed

subsection \<open>getStatsFromFiles skips the paths that fail\<close>

lemma getStatsFromFiles_fold:
  "fold (getStatsFromFiles_step env bname) files (acc, s) =
     (acc @ census_records env bname (mntns s) files,
      s\<lparr>logs := logs s @ census_failures env (mntns s) files\<rparr>)"
proof (induction files arbitrary: acc s)
  case Nil
  show ?case by (simp add: census_records_def census_failures_def)
next
  case (Cons f fs)
  show ?case
  proof (cases "GetPcStatus env (mntns s) f")
    case (Inl err)
    then have step: "getStatsFromFiles_step env bname f (acc, s) =
        (acc, s\<lparr>logs := logs s @ [Skipping_file f err]\<rparr>)"
      by (simp add: getStatsFromFiles_step_def log_Printf_def)
    show ?thesis
      using Inl by (simp add: step Cons.IH census_records_def census_failures_def)
  next
    case (Inr st)
    then have step: "getStatsFromFiles_step env bname f (acc, s) =
        (acc @ [if bname then st\<lparr>Name := Base f\<rparr> else st], s)"
      by (simp add: getStatsFromFiles_step_def)
    show ?thesis
      using Inr by (simp add: step Cons.IH census_records_def census_failures_def)
  qed
qed

lemma getStatsFromFiles_eq:
  "getStatsFromFiles env bname files s =
     ((census_records env bname (mntns s) files, length files),
      s\<lparr>logs := logs s @ census_failures env (mntns s) files\<rparr>)"
  by (simp add: getStatsFromFiles_def getStatsFromFiles_fold)

lemma host_GetPcStatus:
  "GetPcStatus host ns ''/a'' = Inr status_a"
  "GetPcStatus host ns ''/b'' = Inr status_b"
  "GetPcStatus host ns ''/gone'' = Inl ''no such file or directory''"
  by (simp_all add: host_def)

text \<open>
  Claim C6. \<open>getStatsFromFiles\<close> never aborts: it returns one record per path whose
  residency query succeeds, in input order, and logs one entry with the path and the
  error for each path whose query fails. Of three paths whose middle one fails, the
  first and the third record are returned.
\<close>

theorem getStatsFromFiles_partial_failure:
  "getStatsFromFiles env bname files s =
     ((census_records env bname (mntns s) files, length files),
      s\<lparr>logs := logs s @ census_failures env (mntns s) files\<rparr>)
   \<and> getStatsFromFiles host False [''/a'', ''/gone'', ''/b''] start =
       (([status_a, status_b], 3),
        start\<lparr>logs := [Skipping_file ''/gone'' ''no such file or directory'']\<rparr>)"
proof -
  have "getStatsFromFiles host False [''/a'', ''/gone'', ''/b''] start =
       (([status_a, status_b], 3),
        start\<lparr>logs := [Skipping_file ''/gone'' ''no such file or directory'']\<rparr>)"
    by (simp add: getStatsFromFiles_eq census_records_def census_failures_def host_GetPcStatus
        start_def)
  then show ?thesis by (simp add: getStatsFromFiles_eq)
qed

subsection \<open>Sorting and map iteration permute\<close>

lemma mset_sift: "mset (sift lessf x ys) = add_mset x (mset ys)"
  by (induction ys) auto

lemma mset_fold_sift: "mset (fold (sift lessf) xs acc) = mset xs + mset acc"
  by (induction xs arbitrary: acc) (auto simp: mset_sift)

lemma mset_sort_Sort: "mset (sort_Sort lessf xs) = mset xs"
  by (simp add: sort_Sort_def mset_fold_sift)

lemma mset_pick_order: "mset (pick_order cs xs) = mset xs"
proof (induction cs arbitrary: xs)
  case Nil
  show ?case by simp
next
  case (Cons c cs)
  show ?case
  proof (cases "xs = []")
    case True
    then show ?thesis by simp
  next
    case False
    define i where "i = c mod length xs"
    from False have il: "i < length xs" by (simp add: i_def)
    have "mset xs = mset (take i xs @ xs ! i # drop (Suc i) xs)"
      using il by (simp only: id_take_nth_drop [symmetric])
    then show ?thesis
      using False Cons.IH [of "take i xs @ drop (Suc i) xs"] by (simp add: Let_def i_def)
  qed
qed

subsection \<open>getPidLds: what the scan keeps\<close>

lemma getPidLds_entry_cases:
  assumes "getPidLds_entry env pid e (maps, s) = (maps', s')"
  shows "mntns s' = mntns s \<and> map_seeds s' = map_seeds s
     \<and> (maps' = maps
          \<or> (\<exists>t. HasPrefix t ''/'' \<and> \<not> HasPrefix t ''/dev'' \<and> \<not> HasPrefix t ''/proc''
                \<and> maps' = AList.update t True maps))"
  using assms
  by (auto simp: getPidLds_entry_def Let_def log_Printf_def split: sum.splits if_splits)

lemma getPidLds_entry_inv:
  assumes "getPidLds_entry env pid e (maps, s) = (maps', s')"
  shows "mntns s' = mntns s \<and> map_seeds s' = map_seeds s
     \<and> (distinct (map fst maps) \<longrightarrow> distinct (map fst maps'))
     \<and> (\<forall>k \<in> fst ` set maps'. k \<in> fst ` set maps
            \<or> (HasPrefix k ''/'' \<and> \<not> HasPrefix k ''/dev'' \<and> \<not> HasPrefix k ''/proc''))"
proof -
  from getPidLds_entry_cases [OF assms]
  have st: "mntns s' = mntns s \<and> map_seeds s' = map_seeds s"
    and cs: "maps' = maps
          \<or> (\<exists>t. HasPrefix t ''/'' \<and> \<not> HasPrefix t ''/dev'' \<and> \<not> HasPrefix t ''/proc''
                \<and> maps' = AList.update t True maps)"
    by simp_all
  from cs show ?thesis
  proof
    assume "maps' = maps"
    with st show ?thesis by simp
  next
    assume "\<exists>t. HasPrefix t ''/'' \<and> \<not> HasPrefix t ''/dev'' \<and> \<not> HasPrefix t ''/proc''
                \<and> maps' = AList.update t True maps"
    then obtain t where ok: "HasPrefix t ''/''" "\<not> HasPrefix t ''/dev''" "\<not> HasPrefix t ''/proc''"
      and up: "maps' = AList.update t True maps" by blast
    have keys: "fst ` set maps' = insert t (fst ` set maps)"
      by (simp add: up dom_update)
    have dist: "distinct (map fst maps) \<longrightarrow> distinct (map fst maps')"
      by (simp add: up distinct_update)
    from st ok keys dist show ?thesis by simp
  qed
qed

lemma getPidLds_fold_inv:
  assumes "fold (getPidLds_entry env pid) es (maps, s) = (maps', s')"
  shows "mntns s' = mntns s \<and> map_seeds s' = map_seeds s
     \<and> (distinct (map fst maps) \<longrightarrow> distinct (map fst maps'))
     \<and> (\<forall>k \<in> fst ` set maps'. k \<in> fst ` set maps
            \<or> (HasPrefix k ''/'' \<and> \<not> HasPrefix k ''/dev'' \<and> \<not> HasPrefix k ''/proc''))"
  using assms
proof (induction es arbitrary: maps s)
  case Nil
  then show ?case by simp
next
  case (Cons e es)
  obtain m1 s1 where st: "getPidLds_entry env pid e (maps, s) = (m1, s1)"
    by (cases "getPidLds_entry env pid e (maps, s)") auto
  with Cons.prems have rest: "fold (getPidLds_entry env pid) es (m1, s1) = (maps', s')"
    by simp
  from getPidLds_entry_inv [OF st] Cons.IH [OF rest] show ?case
    by (simp only:) blast
qed

lemma getPidLds_entry_seeds:
  "getPidLds_entry env pid e (maps, s\<lparr>map_seeds := sd\<rparr>) =
     (case getPidLds_entry env pid e (maps, s) of (m, s') \<Rightarrow> (m, s'\<lparr>map_seeds := sd\<rparr>))"
  by (simp add: getPidLds_entry_def Let_def log_Printf_def split: sum.splits)

lemma getPidLds_fold_seeds:
  "fold (getPidLds_entry env pid) es (maps, s\<lparr>map_seeds := sd\<rparr>) =
     (case fold (getPidLds_entry env pid) es (maps, s) of (m, s') \<Rightarrow> (m, s'\<lparr>map_seeds := sd\<rparr>))"
proof (induction es arbitrary: maps s)
  case Nil
  show ?case by simp
next
  case (Cons e es)
  obtain m1 s1 where st: "getPidLds_entry env pid e (maps, s) = (m1, s1)"
    by (cases "getPidLds_entry env pid e (maps, s)") auto
  show ?case
    by (simp add: getPidLds_entry_seeds st Cons.IH)
qed

lemma map_range_inv:
  assumes "map_range m s = (out, s')"
  shows "mset out = mset (map fst m) \<and> logs s' = logs s \<and> mntns s' = mntns s"
  using assms by (auto simp: map_range_def mset_pick_order split: list.splits)


lemma getPidLds_scan:
  assumes "pid \<noteq> Getpid env" and "ReadDir env (mntns s) (fd_dirname pid) = Inr entries"
    and "fold (getPidLds_entry env pid) entries ([], s) = (maps, s1)"
  shows "getPidLds env pid s = (Inr (fst (map_range maps s1)), snd (map_range maps s1))"
  using assms by (simp add: getPidLds_def Let_def split: prod.splits)

lemma getPidLds_Inr_cases:
  assumes "fst (getPidLds env pid s) = Inr out"
  shows "out = []
     \<or> (\<exists>entries maps s1. pid \<noteq> Getpid env
           \<and> ReadDir env (mntns s) (fd_dirname pid) = Inr entries
           \<and> fold (getPidLds_entry env pid) entries ([], s) = (maps, s1)
           \<and> out = fst (map_range maps s1))"
  using assms
  by (auto simp: getPidLds_def Let_def split: if_splits sum.splits prod.splits)

text \<open>
  Claim C8. Every path \<open>getPidLds\<close> returns starts with a slash and has neither /dev nor
  /proc as a prefix, whatever the descriptors of the process resolve to.
\<close>

theorem getPidLds_excludes_pseudo_fs:
  assumes "fst (getPidLds env pid s) = Inr out"
  shows "\<forall>p \<in> set out.
           HasPrefix p ''/'' \<and> \<not> HasPrefix p ''/dev'' \<and> \<not> HasPrefix p ''/proc''"
proof -
  from getPidLds_Inr_cases [OF assms] show ?thesis
  proof
    assume "out = []"
    then show ?thesis by simp
  next
    assume "\<exists>entries maps s1. pid \<noteq> Getpid env
           \<and> ReadDir env (mntns s) (fd_dirname pid) = Inr entries
           \<and> fold (getPidLds_entry env pid) entries ([], s) = (maps, s1)
           \<and> out = fst (map_range maps s1)"
    then obtain entries maps s1 where
      fd: "fold (getPidLds_entry env pid) entries ([], s) = (maps, s1)"
      and out: "out = fst (map_range maps s1)" by blast
    obtain o2 s2 where mr: "map_range maps s1 = (o2, s2)"
      by (cases "map_range maps s1") auto
    from map_range_inv [OF mr] out mr have "mset out = mset (map fst maps)" by simp
    then have "set out = fst ` set maps" by (metis set_mset_mset set_map)
    with getPidLds_fold_inv [OF fd] show ?thesis by simp
  qed
qed

lemma fd_dirname_7: "fd_dirname 7 = ''/proc/7/fd''"
  by (simp add: fd_dirname_def itoa_def digits.simps)

lemma fd_symlink_7: "fd_symlink 7 n = ''/proc/7/fd/'' @ n"
  by (simp add: fd_symlink_def itoa_def digits.simps)

lemma host_fold_entries:
  "fold (getPidLds_entry host 7)
     [DirEntry ''3'' False, DirEntry ''4'' False, DirEntry ''5'' False, DirEntry ''6'' False]
     ([], s) = ([(''/a'', True), (''/b'', True), (''/gone'', True)], s)"
  by (simp add: getPidLds_entry_def host_def fd_symlink_7 HasPrefix_def)

lemma getPidLds_host:
  "getPidLds host 7 s = (Inr (fst (map_range [(''/a'', True), (''/b'', True), (''/gone'', True)] s)),
      snd (map_range [(''/a'', True), (''/b'', True), (''/gone'', True)] s))"
proof -
  have 1: "7 \<noteq> Getpid host" by (simp add: host_def)
  have 2: "ReadDir host (mntns s) (fd_dirname 7) =
     Inr [DirEntry ''3'' False, DirEntry ''4'' False, DirEntry ''5'' False, DirEntry ''6'' False]"
    by (simp add: host_def fd_dirname_7)
  show ?thesis by (rule getPidLds_scan [OF 1 2 host_fold_entries])
qed

lemma getPidLds_host_start: "getPidLds host 7 start = (Inr [''/a'', ''/b'', ''/gone''], start)"
  by (simp add: getPidLds_host map_range_def start_def)

text \<open>
  On the concrete host descriptor 5 of process 7 resolves to /dev/null without error,
  and the result holds /a, /b and /gone only.
\<close>

theorem getPidLds_excludes_pseudo_fs_witness:
  "fst (getPidLds host 7 start) = Inr [''/a'', ''/b'', ''/gone'']
   \<and> EvalSymlinks host 0 (fd_symlink 7 ''5'') = Inr ''/dev/null''
   \<and> HasPrefix ''/a'' ''/'' \<and> \<not> HasPrefix ''/a'' ''/dev'' \<and> \<not> HasPrefix ''/a'' ''/proc''"
proof -
  have h: "fst (getPidLds host 7 start) = Inr [''/a'', ''/b'', ''/gone'']"
    by (simp add: getPidLds_host_start)
  have e: "EvalSymlinks host 0 (fd_symlink 7 ''5'') = Inr ''/dev/null''"
    by (simp add: host_def fd_symlink_7)
  from getPidLds_excludes_pseudo_fs [OF h] h e show ?thesis by simp
qed


text \<open>
  Claim C4, as the code has it. Two runs of \<open>getPidLds\<close> on the same environment that
  differ only in the order the runtime walks the map end the same way and write the
  same log; when they return, both lists are free of repeats and hold the same paths.
  Nothing more is fixed: the order of the list is the order of the map iteration.
\<close>

theorem getPidLds_paths_fixed_up_to_order:
  "((\<exists>out out'. fst (getPidLds env pid s) = Inr out
        \<and> fst (getPidLds env pid (s\<lparr>map_seeds := sd\<rparr>)) = Inr out'
        \<and> distinct out \<and> distinct out' \<and> mset out' = mset out)
    \<or> (\<exists>a. fst (getPidLds env pid s) = Inl a
        \<and> fst (getPidLds env pid (s\<lparr>map_seeds := sd\<rparr>)) = Inl a))
   \<and> logs (snd (getPidLds env pid (s\<lparr>map_seeds := sd\<rparr>))) = logs (snd (getPidLds env pid s))"
proof (cases "pid = Getpid env")
  case True
  then show ?thesis by (simp add: getPidLds_def)
next
  case False
  show ?thesis
  proof (cases "ReadDir env (mntns s) (fd_dirname pid)")
    case (Inl err)
    with False show ?thesis
      by (simp add: getPidLds_def Let_def log_Printf_def)
  next
    case (Inr entries)
    obtain maps s1 where fd: "fold (getPidLds_entry env pid) entries ([], s) = (maps, s1)"
      by (cases "fold (getPidLds_entry env pid) entries ([], s)") auto
    then have fd': "fold (getPidLds_entry env pid) entries ([], s\<lparr>map_seeds := sd\<rparr>) =
        (maps, s1\<lparr>map_seeds := sd\<rparr>)"
      by (simp add: getPidLds_fold_seeds)
    from Inr have rd': "ReadDir env (mntns (s\<lparr>map_seeds := sd\<rparr>)) (fd_dirname pid) = Inr entries"
      by simp
    obtain o1 t1 where m1: "map_range maps s1 = (o1, t1)"
      by (cases "map_range maps s1") auto
    obtain o2 t2 where m2: "map_range maps (s1\<lparr>map_seeds := sd\<rparr>) = (o2, t2)"
      by (cases "map_range maps (s1\<lparr>map_seeds := sd\<rparr>)") auto
    have g1: "getPidLds env pid s = (Inr o1, t1)"
      using getPidLds_scan [OF False Inr fd] m1 by simp
    have g2: "getPidLds env pid (s\<lparr>map_seeds := sd\<rparr>) = (Inr o2, t2)"
      using getPidLds_scan [OF False rd' fd'] m2 by simp
    from getPidLds_fold_inv [OF fd] have dk: "distinct (map fst maps)" by simp
    from map_range_inv [OF m1] have p1: "mset o1 = mset (map fst maps)" "logs t1 = logs s1"
      by simp_all
    from map_range_inv [OF m2] have p2: "mset o2 = mset (map fst maps)" "logs t2 = logs s1"
      by simp_all
    have d1: "distinct o1" using p1(1) dk by (metis mset_eq_imp_distinct_iff)
    have d2: "distinct o2" using p2(1) dk by (metis mset_eq_imp_distinct_iff)
    show ?thesis
      by (simp add: g1 g2 d1 d2 p1 p2)
  qed
qed

text \<open>
  Claim C3, as the code has it. When the descriptor directory of a process other than
  the caller cannot be read, the text of the error decides: if it contains
  "no such file or directory", \<open>getPidLds\<close> logs the directory and the error and
  returns the empty list, and the loop of \<open>top\<close> goes on with the next process;
  otherwise \<open>getPidLds\<close> ends the run through \<^verbatim>\<open>log.Fatalf\<close>.
\<close>

theorem getPidLds_unreadable_dir:
  assumes "Pid process \<noteq> Getpid env"
    and "ReadDir env (SwitchMountNs env (Pid process) (mntns s)) (fd_dirname (Pid process)) = Inl err"
  shows "getPidLds env (Pid process) (s\<lparr>mntns := SwitchMountNs env (Pid process) (mntns s)\<rparr>) =
      (if Contains err ''no such file or directory''
       then (Inr [], log_Printf (Skipping_dir (fd_dirname (Pid process)) err)
                       (s\<lparr>mntns := SwitchMountNs env (Pid process) (mntns s)\<rparr>))
       else (Inl LogFatal, log_Printf (Fatal_open_dir (fd_dirname (Pid process)) err)
                       (s\<lparr>mntns := SwitchMountNs env (Pid process) (mntns s)\<rparr>)))
    \<and> top_scan env (process # rest) files s =
      (if Contains err ''no such file or directory''
       then top_scan env rest files
              (log_Printf (Skipping_dir (fd_dirname (Pid process)) err)
                 (s\<lparr>mntns := SwitchMountNs env (Pid process) (mntns s)\<rparr>))
       else (Inl LogFatal, log_Printf (Fatal_open_dir (fd_dirname (Pid process)) err)
                       (s\<lparr>mntns := SwitchMountNs env (Pid process) (mntns s)\<rparr>)))"
  using assms by (simp add: getPidLds_def Let_def)

text \<open>The host on which process 7 has exited.\<close>

theorem getPidLds_unreadable_dir_witness:
  "getPidLds host_exited 7 start =
     (Inr [], start\<lparr>logs := [Skipping_dir ''/proc/7/fd'' ''no such file or directory'']\<rparr>)
   \<and> top_scan host_exited [\<lparr>Pid = 7, RSS = 100\<rparr>] [] start =
     (Inr [], start\<lparr>logs := [Skipping_dir ''/proc/7/fd'' ''no such file or directory'']\<rparr>)"
proof -
  have 1: "Pid \<lparr>Pid = 7, RSS = 100\<rparr> \<noteq> Getpid host_exited"
    by (simp add: host_exited_def host_def)
  have 2: "ReadDir host_exited (SwitchMountNs host_exited (Pid \<lparr>Pid = 7, RSS = 100\<rparr>) (mntns start))
       (fd_dirname (Pid \<lparr>Pid = 7, RSS = 100\<rparr>)) = Inl ''no such file or directory''"
    by (simp add: host_exited_def host_def)
  have 3: "SwitchMountNs host_exited 7 n = n" for n
    by (simp add: host_exited_def host_def)
  show ?thesis
    using getPidLds_unreadable_dir [OF 1 2, of "[]" "[]"]
    by (simp add: 3 fd_dirname_7 log_Printf_def start_def)
qed

text \<open>
  Claim C3 as stated fails on a directory that may not be read: the run ends in
  \<^verbatim>\<open>log.Fatalf\<close>, for \<open>getPidLds\<close> alone and for \<open>top\<close> as a whole.
\<close>

theorem getPidLds_permission_denied_fatal:
  "getPidLds host_denied 7 start =
     (Inl LogFatal, start\<lparr>logs := [Fatal_open_dir ''/proc/7/fd'' ''permission denied'']\<rparr>)
   \<and> top PcStatusList_Less host_denied False 1 start =
     (Inl LogFatal, start\<lparr>logs := [Fatal_open_dir ''/proc/7/fd'' ''permission denied'']\<rparr>)"
proof -
  have g: "getPidLds host_denied 7 start =
     (Inl LogFatal, start\<lparr>logs := [Fatal_open_dir ''/proc/7/fd'' ''permission denied'']\<rparr>)"
    by (simp add: getPidLds_def host_denied_def host_def fd_dirname_7 log_Printf_def start_def)
  have sw: "start\<lparr>mntns := SwitchMountNs host_denied 7 (mntns start)\<rparr> = start"
    by (simp add: host_denied_def host_def start_def)
  have p: "Processes host_denied = Inr [\<lparr>Pid = 7, RSS = 100\<rparr>]"
    by (simp add: host_denied_def host_def)
  show ?thesis
    by (simp add: g top_def p sw)
qed

lemma start_sel: "logs start = []" "mntns start = 0" "map_seeds start = []"
  by (simp_all add: start_def)

lemma host_switch: "SwitchMountNs host pid ns = ns" "start\<lparr>mntns := 0\<rparr> = start"
  by (simp_all add: host_def start_def)

lemma top_scan_host:
  "top_scan host [\<lparr>Pid = 7, RSS = 100\<rparr>] [] start = (Inr [''/a'', ''/b'', ''/gone''], start)"
  by (simp add: host_switch start_sel getPidLds_host_start)

lemma uniqueSlice_host: "uniqueSlice [''/a'', ''/b'', ''/gone''] = [''/a'', ''/b'', ''/gone'']"
  by (simp add: uniqueSlice_def uniqueSlice_step_def upt_rec Let_def)

lemma census_host:
  "census_records host False ns [''/a'', ''/b'', ''/gone''] = [status_a, status_b]"
  "census_records host False ns [''/b'', ''/a''] = [status_b, status_a]"
  "census_records host False ns [''/a'', ''/a''] = [status_a, status_a]"
  "census_records host False ns [''/a''] = [status_a]"
  by (simp_all add: census_records_def host_def)

lemma Less_a_b:
  "PcStatusList_Less status_a status_b" "\<not> PcStatusList_Less status_b status_a"
  "\<not> PcStatusList_Less status_a status_a"
  by (simp_all add: PcStatusList_Less_def status_a_def status_b_def)

lemma sort_host:
  "sort_Sort PcStatusList_Less [status_a, status_b] = [status_a, status_b]"
  "sort_Sort PcStatusList_Less [status_b, status_a] = [status_a, status_b]"
  "sort_Sort PcStatusList_Less [status_a, status_a] = [status_a, status_a]"
  "sort_Sort PcStatusList_Less [status_a] = [status_a]"
  by (simp_all add: sort_Sort_def Less_a_b)

lemma top_host:
  "top PcStatusList_Less host False n start =
     (slice_to ([status_a, status_b], 3) n,
      start\<lparr>logs := [Skipping_file ''/gone'' ''no such file or directory'']\<rparr>)"
proof -
  have p: "Processes host = Inr [\<lparr>Pid = 7, RSS = 100\<rparr>]" by (simp add: host_def)
  have f: "census_failures host ns [''/a'', ''/b'', ''/gone''] =
      [Skipping_file ''/gone'' ''no such file or directory'']" for ns
    by (simp add: census_failures_def host_def)
  show ?thesis
    by (simp add: top_def p top_scan_host uniqueSlice_host getStatsFromFiles_eq census_host f
        sort_host start_sel numeral_3_eq_3 del: top_scan.simps)
qed

text \<open>
  Claim C1. \<open>top\<close> does not clamp N. On the concrete host the census has three paths
  and two records: N = 4 exceeds the capacity and the slice expression panics; N = 3
  lies within the capacity and the result is padded with a zero-valued record; N = 2
  and N = 1 return the first N records after sorting.
\<close>

theorem top_beyond_length:
  "fst (top PcStatusList_Less host False 4 start) = Inl SliceBoundsPanic
   \<and> fst (top PcStatusList_Less host False 3 start) = Inr [status_a, status_b, zero_PcStatus]
   \<and> fst (top PcStatusList_Less host False 2 start) = Inr [status_a, status_b]
   \<and> fst (top PcStatusList_Less host False 1 start) = Inr [status_a]"
  by (simp add: top_host slice_to_def)

text \<open>
  Claim C2. In the default mode \<open>main\<close> sorts the records too: for the arguments /b, /a
  the census yields the records of /b and /a in that order, and the output is the
  record of /a followed by the record of /b.
\<close>

theorem main_default_resorts:
  "fst (main PcStatusList_Less host
          \<lparr>pidFlag = 0, topFlag = 0, bnameFlag = False, args = [''/b'', ''/a'']\<rparr> start)
     = Inr [status_a, status_b]
   \<and> census_records host False (mntns start) [''/b'', ''/a''] = [status_b, status_a]"
  by (simp add: main_def main_files_def getStatsFromFiles_eq census_host sort_host)

text \<open>
  Claim C9. When the top flag is not zero, the run (its result, its log, the mount
  namespace it ends in) is the same whatever the file arguments and the \<^verbatim>\<open>-pid\<close> flag
  are.
\<close>

theorem main_top_overrides_inputs:
  assumes "topFlag fl \<noteq> 0"
  shows "main lessf env (fl\<lparr>pidFlag := p, args := a\<rparr>) s = main lessf env fl s"
  using assms by (simp add: main_def)

text \<open>With top 1 on the concrete host, \<^verbatim>\<open>-pid 7 /b\<close> changes nothing.\<close>

theorem main_top_overrides_inputs_witness:
  "main PcStatusList_Less host \<lparr>pidFlag = 7, topFlag = 1, bnameFlag = False, args = [''/b'']\<rparr> start
     = main PcStatusList_Less host \<lparr>pidFlag = 0, topFlag = 1, bnameFlag = False, args = []\<rparr> start
   \<and> fst (main PcStatusList_Less host
            \<lparr>pidFlag = 0, topFlag = 1, bnameFlag = False, args = []\<rparr> start) = Inr [status_a]"
proof -
  have h: "topFlag \<lparr>pidFlag = 0, topFlag = 1, bnameFlag = False, args = []\<rparr> \<noteq> 0" by simp
  show ?thesis
    using main_top_overrides_inputs [OF h, where lessf = PcStatusList_Less and env = host
        and p = 7 and a = "[''/b'']" and s = start]
    by (simp add: main_def top_host slice_to_def)
qed

lemma length_census_records:
  "length (census_records env bname ns files) =
     length (filter (\<lambda>f. \<not> isl (GetPcStatus env ns f)) files)"
  by (induction files) (auto simp: census_records_def split: sum.splits)

text \<open>
  Claim C10. In the default and \<^verbatim>\<open>-pid\<close> modes the combined list is the arguments
  followed by the open files of the process, and the output is a rearrangement of the
  census of that list as it is: one record for each occurrence of a path whose query
  succeeds, repeats included.
\<close>

theorem main_default_keeps_repeats:
  assumes "topFlag fl = 0" and "main_files env fl s = (Inr files, s1)" and "files \<noteq> []"
  shows "\<exists>out s2 maps. main lessf env fl s = (Inr out, s2)
     \<and> files = args fl @ maps
     \<and> mset out = mset (census_records env (bnameFlag fl) (mntns s1) files)
     \<and> length out = length (filter (\<lambda>f. \<not> isl (GetPcStatus env (mntns s1) f)) files)"
proof -
  have m: "main lessf env fl s =
      (Inr (sort_Sort lessf (census_records env (bnameFlag fl) (mntns s1) files)),
       s1\<lparr>logs := logs s1 @ census_failures env (mntns s1) files\<rparr>)"
    using assms by (simp add: main_def getStatsFromFiles_eq)
  have a: "\<exists>maps. files = args fl @ maps"
    using assms(2) by (auto simp: main_files_def split: if_splits sum.splits prod.splits)
  have l: "length (sort_Sort lessf (census_records env (bnameFlag fl) (mntns s1) files)) =
      length (filter (\<lambda>f. \<not> isl (GetPcStatus env (mntns s1) f)) files)"
    using mset_sort_Sort [of lessf "census_records env (bnameFlag fl) (mntns s1) files"]
    by (metis length_census_records size_mset)
  from m a l show ?thesis by (auto simp: mset_sort_Sort)
qed

text \<open>The argument /a given twice yields its record twice.\<close>

theorem main_default_keeps_repeats_witness:
  "main PcStatusList_Less host
     \<lparr>pidFlag = 0, topFlag = 0, bnameFlag = False, args = [''/a'', ''/a'']\<rparr> start
     = (Inr [status_a, status_a], start)
   \<and> fst (main PcStatusList_Less host
       \<lparr>pidFlag = 7, topFlag = 0, bnameFlag = False, args = [''/a'']\<rparr> start)
     = Inr [status_a, status_a, status_b]"
proof -
  let ?fl = "\<lparr>pidFlag = 0, topFlag = 0, bnameFlag = False, args = [''/a'', ''/a'']\<rparr>"
  have 1: "topFlag ?fl = 0" by simp
  have 2: "main_files host ?fl start = (Inr [''/a'', ''/a''], start)"
    by (simp add: main_files_def)
  have 3: "[''/a'', ''/a''] \<noteq> ([] :: string list)" by simp
  have f: "census_failures host ns [''/a'', ''/a''] = []" for ns
    by (simp add: census_failures_def host_def)
  have c: "census_records host False ns [''/a'', ''/a'', ''/b'', ''/gone''] =
      [status_a, status_a, status_b]" for ns
    by (simp add: census_records_def host_GetPcStatus)
  have st: "sort_Sort PcStatusList_Less [status_a, status_a, status_b] =
      [status_a, status_a, status_b]"
    by (simp add: sort_Sort_def Less_a_b)
  have p: "fst (main PcStatusList_Less host
       \<lparr>pidFlag = 7, topFlag = 0, bnameFlag = False, args = [''/a'']\<rparr> start)
     = Inr [status_a, status_a, status_b]"
    by (simp add: main_def main_files_def host_switch start_sel getPidLds_host_start
        getStatsFromFiles_eq c st)
  from main_default_keeps_repeats [OF 1 2 3, of PcStatusList_Less] p
  show ?thesis
    by (simp add: main_def main_files_def getStatsFromFiles_eq census_host sort_host f start_sel
        host_GetPcStatus)
qed

lemma top_negative_aborts:
  assumes "n < 0"
  shows "\<exists>a. fst (top lessf env bname n s) = Inl a"
  using assms
  by (auto simp: top_def slice_to_def Let_def split: sum.splits prod.splits)

lemma main_negative_top_aborts:
  assumes "topFlag fl < 0"
  shows "\<exists>a. fst (main lessf env fl s) = Inl a"
  using assms top_negative_aborts [of "topFlag fl" lessf env "bnameFlag fl" s]
  by (simp add: main_def)

text \<open>
  Claim C7. The guard of \<open>main\<close> is \<^verbatim>\<open>topFlag != 0\<close>, which keeps 0 out of top mode but
  not a negative N. For N = -1 on the concrete host the census of process 7 runs (its
  log entry for /gone is written) and the run ends in the panic of the slice
  expression \<^verbatim>\<open>stats[:top]\<close>, whereas the same arguments with N = 0 take the path of
  the file arguments and print the record of /a.
\<close>

theorem main_negative_top_enters_top_mode:
  "main PcStatusList_Less host
      \<lparr>pidFlag = 0, topFlag = - 1, bnameFlag = False, args = [''/a'']\<rparr> start
     = (Inl SliceBoundsPanic,
        start\<lparr>logs := [Skipping_file ''/gone'' ''no such file or directory'']\<rparr>)
   \<and> main PcStatusList_Less host
      \<lparr>pidFlag = 0, topFlag = 0, bnameFlag = False, args = [''/a'']\<rparr> start
     = (Inr [status_a], start)"
proof -
  have f: "census_failures host ns [''/a''] = []" for ns
    by (simp add: census_failures_def host_def)
  show ?thesis
    by (simp add: main_def top_host slice_to_def main_files_def getStatsFromFiles_eq
        census_host sort_host f start_sel)
qed

lemma host_c_fold_entries:
  "fold (getPidLds_entry host_c 7)
     [DirEntry ''3'' False, DirEntry ''4'' False, DirEntry ''5'' False, DirEntry ''6'' False]
     ([], s) = ([(''/x/c'', True), (''/y/c'', True)], s)"
  by (simp add: getPidLds_entry_def host_c_def host_def fd_symlink_7 HasPrefix_def)

lemma getPidLds_host_c:
  "getPidLds host_c 7 s = (Inr (fst (map_range [(''/x/c'', True), (''/y/c'', True)] s)),
      snd (map_range [(''/x/c'', True), (''/y/c'', True)] s))"
proof -
  have 1: "7 \<noteq> Getpid host_c" by (simp add: host_c_def host_def)
  have 2: "ReadDir host_c (mntns s) (fd_dirname 7) =
     Inr [DirEntry ''3'' False, DirEntry ''4'' False, DirEntry ''5'' False, DirEntry ''6'' False]"
    by (simp add: host_c_def host_def fd_dirname_7)
  show ?thesis by (rule getPidLds_scan [OF 1 2 host_c_fold_entries])
qed

lemma Base_c: "Base ''/x/c'' = ''c''" "Base ''/y/c'' = ''c''"
  by (simp_all add: Base_def)

lemma census_host_c:
  "census_records host_c True ns [''/x/c'', ''/y/c''] =
     [status_xc\<lparr>Name := ''c''\<rparr>, status_yc\<lparr>Name := ''c''\<rparr>]"
  "census_records host_c True ns [''/y/c'', ''/x/c''] =
     [status_yc\<lparr>Name := ''c''\<rparr>, status_xc\<lparr>Name := ''c''\<rparr>]"
  "census_failures host_c ns [''/x/c'', ''/y/c''] = []"
  "census_failures host_c ns [''/y/c'', ''/x/c''] = []"
  by (simp_all add: census_records_def census_failures_def host_c_def host_def Base_c)

lemma sort_host_c:
  "sort_Sort PcStatusList_Less [status_xc\<lparr>Name := ''c''\<rparr>, status_yc\<lparr>Name := ''c''\<rparr>] =
     [status_xc\<lparr>Name := ''c''\<rparr>, status_yc\<lparr>Name := ''c''\<rparr>]"
  "sort_Sort PcStatusList_Less [status_yc\<lparr>Name := ''c''\<rparr>, status_xc\<lparr>Name := ''c''\<rparr>] =
     [status_yc\<lparr>Name := ''c''\<rparr>, status_xc\<lparr>Name := ''c''\<rparr>]"
  by (simp_all add: sort_Sort_def PcStatusList_Less_def status_xc_def status_yc_def)

text \<open>
  Claim C4 as stated fails: with the same process table and the same descriptor
  listing, two map iteration orders give two different path lists for process 7, and
  with \<^verbatim>\<open>-pid 7 -bname\<close> on the host whose descriptors resolve to /x/c and /y/c two
  different final outputs.
\<close>

theorem output_order_varies_with_map_iteration:
  "fst (getPidLds host 7 start) = Inr [''/a'', ''/b'', ''/gone'']
   \<and> fst (getPidLds host 7 (start\<lparr>map_seeds := [[1]]\<rparr>)) = Inr [''/b'', ''/a'', ''/gone'']
   \<and> fst (main PcStatusList_Less host_c
            \<lparr>pidFlag = 7, topFlag = 0, bnameFlag = True, args = []\<rparr> start)
       = Inr [status_xc\<lparr>Name := ''c''\<rparr>, status_yc\<lparr>Name := ''c''\<rparr>]
   \<and> fst (main PcStatusList_Less host_c
            \<lparr>pidFlag = 7, topFlag = 0, bnameFlag = True, args = []\<rparr> (start\<lparr>map_seeds := [[1]]\<rparr>))
       = Inr [status_yc\<lparr>Name := ''c''\<rparr>, status_xc\<lparr>Name := ''c''\<rparr>]
   \<and> status_xc\<lparr>Name := ''c''\<rparr> \<noteq> status_yc\<lparr>Name := ''c''\<rparr>"
proof -
  have g: "fst (getPidLds host 7 start) = Inr [''/a'', ''/b'', ''/gone'']"
     "fst (getPidLds host 7 (start\<lparr>map_seeds := [[1]]\<rparr>)) = Inr [''/b'', ''/a'', ''/gone'']"
    by (simp_all add: getPidLds_host map_range_def start_def)
  have m1: "fst (main PcStatusList_Less host_c
            \<lparr>pidFlag = 7, topFlag = 0, bnameFlag = True, args = []\<rparr> start)
       = Inr [status_xc\<lparr>Name := ''c''\<rparr>, status_yc\<lparr>Name := ''c''\<rparr>]"
    by (simp add: main_def main_files_def getPidLds_host_c map_range_def start_sel
        getStatsFromFiles_eq census_host_c sort_host_c)
  have m2: "fst (main PcStatusList_Less host_c
            \<lparr>pidFlag = 7, topFlag = 0, bnameFlag = True, args = []\<rparr> (start\<lparr>map_seeds := [[1]]\<rparr>))
       = Inr [status_yc\<lparr>Name := ''c''\<rparr>, status_xc\<lparr>Name := ''c''\<rparr>]"
    by (simp add: main_def main_files_def getPidLds_host_c map_range_def start_sel
        getStatsFromFiles_eq census_host_c sort_host_c)
  have ne: "status_xc\<lparr>Name := ''c''\<rparr> \<noteq> status_yc\<lparr>Name := ''c''\<rparr>"
    by (simp add: status_xc_def status_yc_def)
  from g m1 m2 ne show ?thesis by simp
qed

end
